theory Spec2Isabelle
  imports Main
begin

section \<open>The cache of \<open>cache.go\<close>: data model\<close>

text \<open>
  Go's \<open>interface{}\<close> holds either \<open>nil\<close> or a value of some dynamic type. The cache
  never inspects a stored value, so the dynamic types are collapsed into one type
  parameter \<open>'v\<close>. Keys are \<open>interface{}\<close> too; the type parameter \<open>'k\<close> stands for
  the comparable dynamic types, the only ones that Go accepts as keys of a map.
\<close>

datatype 'v iface = Nil | Val 'v

text \<open>
  What lives outside the cache: the wall clock that \<open>time.Now()\<close> reads (nanoseconds
  since the Unix epoch, as an unbounded integer) and the state \<open>user\<close> of the calling
  program, which a value generator may read and change. A \<open>ValueGenerator\<close> is a Go
  function of no arguments; it is modelled as a transformer of that environment returning
  the generated value. It may let time pass and may return a different value at every
  call. Generators are taken to return; they cannot reach the cache itself.
\<close>

record 'w env =
  clock :: int
  user :: 'w

type_synonym ('v, 'w) ValueGenerator = "'w env \<Rightarrow> 'v iface \<times> 'w env"

text \<open>
  \<open>CacheEntry\<close> (lines 41-54). A function value may be \<open>nil\<close>, hence the option in
  \<open>fn\<close>. \<open>expiry\<close> is a \<open>time.Time\<close> and \<open>lifetime\<close> a \<open>time.Duration\<close>, both
  counted in nanoseconds. A field left out of a struct literal holds Go's zero value:
  \<open>None\<close> for \<open>fn\<close>, \<open>0\<close> for \<open>lifetime\<close>, \<open>Nil\<close> for \<open>value\<close>.
\<close>

record ('v, 'w) CacheEntry =
  "value" :: "'v iface"
  expiry :: int
  perpetual :: bool
  fn :: "('v, 'w) ValueGenerator option"
  lifetime :: int

text \<open>
  \<open>Cache\<close> (lines 26-35). The embedded \<open>sync.Mutex\<close> is a flag: Go's mutex records no
  owner and is not reentrant. The map holds pointers to entries; the only in-place update
  of an entry (in \<open>expire\<close>) happens on the pointer that the sweep has just read from the
  map, under the key it was read from, so entries are kept by value under their key. The
  fields \<open>ticker\<close> and \<open>quit\<close> only drive the background goroutine and carry no data.
\<close>

record ('k, 'v, 'w) Cache =
  mutex :: bool
  entries :: "'k \<rightharpoonup> ('v, 'w) CacheEntry"

type_synonym ('k, 'v, 'w) state = "('k, 'v, 'w) Cache \<times> 'w env"

section \<open>Outcomes of a goroutine running a piece of code\<close>

text \<open>
  A piece of code run by one goroutine from a state either returns a result, or parks the
  goroutine in \<open>Lock\<close> because the mutex is held (\<open>Blocked\<close>, with the state reached),
  or panics. The code of the cache never unlocks a mutex that it has not locked before, so
  a goroutine parked on a mutex that is held by itself, or by another parked goroutine, is
  parked for good (lemma \<open>held_mutex_stays_held\<close> below).
\<close>

datatype ('a, 's) res = Returns 'a 's | Blocked 's | Panics 's

fun state_of :: "('a, 's) res \<Rightarrow> 's" where
  "state_of (Returns a s) = s"
| "state_of (Blocked s) = s"
| "state_of (Panics s) = s"

definition andThen :: "('s \<Rightarrow> ('a, 's) res) \<Rightarrow> ('a \<Rightarrow> 's \<Rightarrow> ('b, 's) res) \<Rightarrow> 's \<Rightarrow> ('b, 's) res" where
  "andThen m f s = (case m s of Returns a s' \<Rightarrow> f a s' | Blocked s' \<Rightarrow> Blocked s' | Panics s' \<Rightarrow> Panics s')"

definition ret :: "'a \<Rightarrow> 's \<Rightarrow> ('a, 's) res" where
  "ret a s = Returns a s"

subsection \<open>The primitives that the cache uses\<close>

text \<open>\<open>sync.Mutex.Lock\<close>: waits while the mutex is held.\<close>

definition Lock :: "('k, 'v, 'w) state \<Rightarrow> (unit, ('k, 'v, 'w) state) res" where
  "Lock s = (if mutex (fst s) then Blocked s else Returns () ((fst s)\<lparr>mutex := True\<rparr>, snd s))"

text \<open>\<open>sync.Mutex.Unlock\<close>: a fatal error on a mutex that is not locked.\<close>

definition Unlock :: "('k, 'v, 'w) state \<Rightarrow> (unit, ('k, 'v, 'w) state) res" where
  "Unlock s = (if mutex (fst s) then Returns () ((fst s)\<lparr>mutex := False\<rparr>, snd s) else Panics s)"

text \<open>\<open>time.Now()\<close>, \<open>Time.Add\<close> and \<open>Time.UnixNano\<close>. The latter computes in
  \<open>int64\<close>, so it wraps around outside the years 1678 to 2262.\<close>

definition time_Now :: "('k, 'v, 'w) state \<Rightarrow> (int, ('k, 'v, 'w) state) res" where
  "time_Now s = Returns (clock (snd s)) s"

definition Add :: "int \<Rightarrow> int \<Rightarrow> int" where
  "Add t d = t + d"

definition UnixNano :: "int \<Rightarrow> int" where
  "UnixNano t = (t + 2 ^ 63) mod 2 ^ 64 - 2 ^ 63"

text \<open>Calling a function value: a panic when it is \<open>nil\<close>.\<close>

fun call :: "('v, 'w) ValueGenerator option \<Rightarrow> ('k, 'v, 'w) state \<Rightarrow> ('v iface, ('k, 'v, 'w) state) res" where
  "call None s = Panics s"
| "call (Some g) s = Returns (fst (g (snd s))) (fst s, snd (g (snd s)))"

text \<open>The three map operations: \<open>c.entries[key] = entry\<close>, \<open>delete(c.entries, key)\<close>
  and \<open>c.entries[key]\<close>, which yields the nil pointer (\<open>None\<close>) for a missing key.\<close>

definition map_assign :: "'k \<Rightarrow> ('v, 'w) CacheEntry \<Rightarrow> ('k, 'v, 'w) state \<Rightarrow> (unit, ('k, 'v, 'w) state) res" where
  "map_assign key entry s = Returns () ((fst s)\<lparr>entries := (entries (fst s))(key \<mapsto> entry)\<rparr>, snd s)"

definition map_delete :: "'k \<Rightarrow> ('k, 'v, 'w) state \<Rightarrow> (unit, ('k, 'v, 'w) state) res" where
  "map_delete key s = Returns () ((fst s)\<lparr>entries := (entries (fst s))(key := None)\<rparr>, snd s)"

definition map_index :: "'k \<Rightarrow> ('k, 'v, 'w) state \<Rightarrow> (('v, 'w) CacheEntry option, ('k, 'v, 'w) state) res" where
  "map_index key s = Returns (entries (fst s) key) s"

section \<open>The operations of the cache\<close>

text \<open>\<open>NewCache\<close> (lines 57-64): an empty map and an unlocked mutex. The goroutine that
  \<open>startTimer\<close> launches is \<open>tick\<close> below, run once per second.\<close>

definition NewCache :: "('k, 'v, 'w) Cache" where
  "NewCache = \<lparr>mutex = False, entries = Map.empty\<rparr>"

text \<open>\<open>Store\<close> (lines 74-79).\<close>

definition Store :: "'k \<Rightarrow> 'v iface \<Rightarrow> int \<Rightarrow> ('k, 'v, 'w) state \<Rightarrow> (unit, ('k, 'v, 'w) state) res" where
  "Store key val lifetime' =
     andThen time_Now (\<lambda>now.
       let entry = \<lparr>value = val, expiry = Add now lifetime', perpetual = False, fn = None, lifetime = 0\<rparr> in
       andThen Lock (\<lambda>_.
       andThen (map_assign key entry) (\<lambda>_.
       Unlock)))"

text \<open>\<open>StorePerpetual\<close> (lines 87-93): the entry is built first, with the expiry read from
  the clock before the generator runs; then the generator is called, then the lock taken.\<close>

definition StorePerpetual :: "'k \<Rightarrow> ('v, 'w) ValueGenerator option \<Rightarrow> int \<Rightarrow> ('k, 'v, 'w) state \<Rightarrow> (unit, ('k, 'v, 'w) state) res" where
  "StorePerpetual key fn' lifetime' =
     andThen time_Now (\<lambda>now.
       let entry = \<lparr>value = Nil, expiry = Add now lifetime', perpetual = True, fn = fn', lifetime = lifetime'\<rparr> in
       andThen (call fn') (\<lambda>v.
       let entry = entry\<lparr>value := v\<rparr> in
       andThen Lock (\<lambda>_.
       andThen (map_assign key entry) (\<lambda>_.
       Unlock))))"

text \<open>\<open>Delete\<close> (lines 97-99).\<close>

definition Delete :: "'k \<Rightarrow> ('k, 'v, 'w) state \<Rightarrow> (unit, ('k, 'v, 'w) state) res" where
  "Delete key = map_delete key"

text \<open>\<open>Get\<close> (lines 102-110).\<close>

definition Get :: "'k \<Rightarrow> ('k, 'v, 'w) state \<Rightarrow> ('v iface, ('k, 'v, 'w) state) res" where
  "Get key =
     andThen Lock (\<lambda>_.
     andThen (map_index key) (\<lambda>entry.
     andThen Unlock (\<lambda>_.
     case entry of None \<Rightarrow> ret Nil | Some e \<Rightarrow> ret (value e))))"

text \<open>\<open>expire\<close> (lines 140-159). The two assignments through the entry pointer update the
  entry under \<open>key\<close>.\<close>

definition assign_value :: "'k \<Rightarrow> 'v iface \<Rightarrow> ('k, 'v, 'w) state \<Rightarrow> (unit, ('k, 'v, 'w) state) res" where
  "assign_value key nv s =
     Returns () ((fst s)\<lparr>entries := (\<lambda>k. if k = key then map_option (\<lambda>e. e\<lparr>value := nv\<rparr>) (entries (fst s) k) else entries (fst s) k)\<rparr>, snd s)"

definition assign_expiry :: "'k \<Rightarrow> int \<Rightarrow> ('k, 'v, 'w) state \<Rightarrow> (unit, ('k, 'v, 'w) state) res" where
  "assign_expiry key t s =
     Returns () ((fst s)\<lparr>entries := (\<lambda>k. if k = key then map_option (\<lambda>e. e\<lparr>expiry := t\<rparr>) (entries (fst s) k) else entries (fst s) k)\<rparr>, snd s)"

definition expire :: "'k \<Rightarrow> ('v, 'w) CacheEntry \<Rightarrow> ('k, 'v, 'w) state \<Rightarrow> (unit, ('k, 'v, 'w) state) res" where
  "expire key entry =
     (if perpetual entry then
        andThen (call (fn entry)) (\<lambda>nv.
        andThen Lock (\<lambda>_.
        andThen (assign_value key nv) (\<lambda>_.
        andThen time_Now (\<lambda>now.
        andThen (assign_expiry key (Add now (lifetime entry))) (\<lambda>_.
        Unlock)))))
      else Delete key)"

text \<open>
  The body of the ticker case in \<open>startTimer\<close> (lines 121-129). Go's \<open>range\<close> over a map
  visits the keys in an order that the language leaves open; \<open>ks\<close> is that order. A key
  deleted before the loop reaches it is not visited.
\<close>

fun range_entries :: "'k list \<Rightarrow> int \<Rightarrow> ('k, 'v, 'w) state \<Rightarrow> (unit, ('k, 'v, 'w) state) res" where
  "range_entries [] n s = Returns () s"
| "range_entries (k # ks) n s =
     (case entries (fst s) k of
        None \<Rightarrow> range_entries ks n s
      | Some v \<Rightarrow>
          (let e = UnixNano (expiry v) in
           if e \<le> n then andThen (expire k v) (\<lambda>_. range_entries ks n) s
           else range_entries ks n s))"

definition tick :: "'k list \<Rightarrow> ('k, 'v, 'w) state \<Rightarrow> (unit, ('k, 'v, 'w) state) res" where
  "tick ks =
     andThen time_Now (\<lambda>t.
       let n = UnixNano t in
       andThen Lock (\<lambda>_.
       andThen (range_entries ks n) (\<lambda>_.
       Unlock)))"

text \<open>
  The goroutine of \<open>startTimer\<close> (lines 117-135) as a loop over the events it
  receives: each tick comes with the time that has passed since the last event and with
  the order in which \<open>range\<close> walks the map; the end of the list is the message on
  \<open>quit\<close>. A sweep that does not return keeps the goroutine from any later tick.
\<close>

fun startTimer_loop :: "(int \<times> 'k list) list \<Rightarrow> ('k, 'v, 'w) state \<Rightarrow> (unit, ('k, 'v, 'w) state) res" where
  "startTimer_loop [] s = Returns () s"
| "startTimer_loop ((dt, ks) # ticks) s =
     andThen (tick ks) (\<lambda>_. startTimer_loop ticks) (fst s, (snd s)\<lparr>clock := clock (snd s) + dt\<rparr>)"

section \<open>Properties to be checked\<close>

text \<open>
  The shape of an entry (comment at lines 45-46): a perpetual entry has a generator; an
  entry that is not perpetual has the zero values that \<open>Store\<close>'s struct literal leaves
  in \<open>fn\<close> and \<open>lifetime\<close>. A \<open>time.Duration\<close> field always holds a number, so
  for a perpetual entry there is nothing to require of \<open>lifetime\<close> here; that it is the
  duration handed to \<open>StorePerpetual\<close> is part of what is shown about that operation.
\<close>

definition entry_shape :: "('v, 'w) CacheEntry \<Rightarrow> bool" where
  "entry_shape x = (if perpetual x then fn x \<noteq> None else fn x = None \<and> lifetime x = 0)"

definition shape_inv :: "('k, 'v, 'w) Cache \<Rightarrow> bool" where
  "shape_inv c = (\<forall>k x. entries c k = Some x \<longrightarrow> entry_shape x)"

text \<open>The test of line 125, and the keys among \<open>ks\<close> whose entries pass it.\<close>

definition expired :: "int \<Rightarrow> ('v, 'w) CacheEntry \<Rightarrow> bool" where
  "expired n v = (UnixNano (expiry v) \<le> n)"

definition evicted :: "'k list \<Rightarrow> int \<Rightarrow> ('k, 'v, 'w) Cache \<Rightarrow> 'k set" where
  "evicted ks n c = {k \<in> set ks. \<exists>v. entries c k = Some v \<and> expired n v}"

subsection \<open>Concrete inputs\<close>

text \<open>A generator that is not constant: it returns the number of calls made so far.\<close>

definition counter :: "(nat, nat) ValueGenerator" where
  "counter e = (Val (user e), e\<lparr>user := Suc (user e)\<rparr>)"

text \<open>Times are in nanoseconds: \<open>second\<close> is Go's \<open>time.Second\<close>.\<close>

definition second :: int where
  "second = 1000000000"

definition perpetual_entry :: "(nat, nat) CacheEntry" where
  "perpetual_entry = \<lparr>value = Val 0, expiry = 5 * second, perpetual = True, fn = Some counter, lifetime = 5 * second\<rparr>"

definition plain_entry :: "nat \<Rightarrow> int \<Rightarrow> (nat, nat) CacheEntry" where
  "plain_entry v t = \<lparr>value = Val v, expiry = t, perpetual = False, fn = None, lifetime = 0\<rparr>"

section \<open>What each operation computes\<close>

lemmas go_defs = andThen_def ret_def Lock_def Unlock_def time_Now_def Add_def map_assign_def
  map_delete_def map_index_def assign_value_def assign_expiry_def

lemma Store_eq:
  "Store k v d (c, e) =
     (if mutex c then Blocked (c, e)
      else Returns () (c\<lparr>entries := (entries c)(k \<mapsto> \<lparr>value = v, expiry = clock e + d, perpetual = False, fn = None, lifetime = 0\<rparr>)\<rparr>, e))"
  by (simp add: Store_def go_defs)

lemma StorePerpetual_eq:
  "StorePerpetual k (Some g) d (c, e) =
     (if mutex c then Blocked (c, snd (g e))
      else Returns () (c\<lparr>entries := (entries c)(k \<mapsto> \<lparr>value = fst (g e), expiry = clock e + d, perpetual = True, fn = Some g, lifetime = d\<rparr>)\<rparr>, snd (g e)))"
  by (simp add: StorePerpetual_def go_defs)

lemma StorePerpetual_nil: "StorePerpetual k None d s = Panics s"
  by (simp add: StorePerpetual_def go_defs)

lemma Get_eq:
  "Get k (c, e) =
     (if mutex c then Blocked (c, e)
      else Returns (case entries c k of None \<Rightarrow> Nil | Some x \<Rightarrow> value x) (c, e))"
  by (simp add: Get_def go_defs split: option.splits)

lemma Delete_eq: "Delete k (c, e) = Returns () (c\<lparr>entries := (entries c)(k := None)\<rparr>, e)"
  by (simp add: Delete_def go_defs)

lemma expire_locked:
  "mutex c \<Longrightarrow> expire k v (c, e) =
     (if perpetual v then (case fn v of None \<Rightarrow> Panics (c, e) | Some g \<Rightarrow> Blocked (c, snd (g e)))
      else Returns () (c\<lparr>entries := (entries c)(k := None)\<rparr>, e))"
  by (cases "fn v") (simp_all add: expire_def Delete_eq go_defs)

lemma range_entries_Cons:
  "mutex c \<Longrightarrow> range_entries (k # ks) n (c, e) =
     (case entries c k of
        None \<Rightarrow> range_entries ks n (c, e)
      | Some v \<Rightarrow>
          if expired n v then
            (if perpetual v then (case fn v of None \<Rightarrow> Panics (c, e) | Some g \<Rightarrow> Blocked (c, snd (g e)))
             else range_entries ks n (c\<lparr>entries := (entries c)(k := None)\<rparr>, e))
          else range_entries ks n (c, e))"
  by (simp add: expired_def andThen_def expire_locked split: option.splits)

lemma range_entries_mutex:
  "mutex (fst s) \<Longrightarrow> mutex (fst (state_of (range_entries ks n s)))"
proof (induction ks arbitrary: s)
  case Nil
  then show ?case by simp
next
  case (Cons k ks)
  obtain c e where s: "s = (c, e)" by (cases s)
  with Cons.prems have m: "mutex c" by simp
  show ?case
    unfolding s range_entries_Cons [OF m]
    using m Cons.IH by (auto split: option.splits)
qed

lemma range_entries_shape:
  "mutex (fst s) \<Longrightarrow> shape_inv (fst s) \<Longrightarrow> shape_inv (fst (state_of (range_entries ks n s)))"
proof (induction ks arbitrary: s)
  case Nil
  then show ?case by simp
next
  case (Cons k ks)
  obtain c e where s: "s = (c, e)" by (cases s)
  with Cons.prems have m: "mutex c" and i: "shape_inv c" by simp_all
  have i': "shape_inv (c\<lparr>entries := (entries c)(k := None)\<rparr>)"
    using i by (simp add: shape_inv_def)
  show ?case
    unfolding s range_entries_Cons [OF m]
    using m i i' Cons.IH [of "(c, e)"] Cons.IH [of "(c\<lparr>entries := (entries c)(k := None)\<rparr>, e)"]
    by (auto split: option.splits)
qed

lemma range_entries_evicts:
  "mutex c \<Longrightarrow> \<forall>k\<in>set ks. \<forall>v. entries c k = Some v \<longrightarrow> expired n v \<longrightarrow> \<not> perpetual v \<Longrightarrow>
   range_entries ks n (c, e) = Returns () (c\<lparr>entries := entries c |` (- evicted ks n c)\<rparr>, e)"
proof (induction ks arbitrary: c)
  case Nil
  then show ?case by (simp add: evicted_def)
next
  case (Cons k ks)
  let ?c' = "c\<lparr>entries := (entries c)(k := None)\<rparr>"
  have m': "mutex ?c'" using Cons.prems(1) by simp
  have p': "\<forall>k\<in>set ks. \<forall>v. entries ?c' k = Some v \<longrightarrow> expired n v \<longrightarrow> \<not> perpetual v"
    using Cons.prems(2) by auto
  have p: "\<forall>k\<in>set ks. \<forall>v. entries c k = Some v \<longrightarrow> expired n v \<longrightarrow> \<not> perpetual v"
    using Cons.prems(2) by auto
  have evict: "\<exists>v. entries c k = Some v \<and> expired n v \<Longrightarrow>
      range_entries (k # ks) n (c, e) = range_entries ks n (?c', e)"
    using Cons.prems(2) unfolding range_entries_Cons [OF Cons.prems(1)] by auto
  have keep: "\<not> (\<exists>v. entries c k = Some v \<and> expired n v) \<Longrightarrow>
      range_entries (k # ks) n (c, e) = range_entries ks n (c, e)"
    unfolding range_entries_Cons [OF Cons.prems(1)] by (auto split: option.splits)
  show ?case
  proof (cases "\<exists>v. entries c k = Some v \<and> expired n v")
    case True
    have mapeq: "entries ?c' |` (- evicted ks n ?c') = entries c |` (- evicted (k # ks) n c)"
      using True by (auto simp: evicted_def restrict_map_def fun_eq_iff)
    have "range_entries (k # ks) n (c, e) = range_entries ks n (?c', e)"
      by (rule evict [OF True])
    also have "\<dots> = Returns () (?c'\<lparr>entries := entries ?c' |` (- evicted ks n ?c')\<rparr>, e)"
      by (rule Cons.IH [OF m' p'])
    also have "\<dots> = Returns () (c\<lparr>entries := entries c |` (- evicted (k # ks) n c)\<rparr>, e)"
      unfolding mapeq by simp
    finally show ?thesis .
  next
    case False
    have mapeq: "entries c |` (- evicted ks n c) = entries c |` (- evicted (k # ks) n c)"
      using False by (auto simp: evicted_def restrict_map_def fun_eq_iff)
    have "range_entries (k # ks) n (c, e) = range_entries ks n (c, e)"
      by (rule keep [OF False])
    also have "\<dots> = Returns () (c\<lparr>entries := entries c |` (- evicted ks n c)\<rparr>, e)"
      by (rule Cons.IH [OF Cons.prems(1) p])
    finally show ?thesis unfolding mapeq .
  qed
qed

lemma range_entries_blocks:
  "mutex c \<Longrightarrow> shape_inv c \<Longrightarrow> \<exists>k\<in>set ks. \<exists>v. entries c k = Some v \<and> expired n v \<and> perpetual v \<Longrightarrow>
   \<exists>c' e'. range_entries ks n (c, e) = Blocked (c', e') \<and> mutex c'"
proof (induction ks arbitrary: c)
  case Nil
  then show ?case by simp
next
  case (Cons k ks)
  let ?c' = "c\<lparr>entries := (entries c)(k := None)\<rparr>"
  show ?case
  proof (cases "entries c k")
    case None
    with Cons.prems(3) have "\<exists>k\<in>set ks. \<exists>v. entries c k = Some v \<and> expired n v \<and> perpetual v"
      by auto
    from Cons.IH [OF Cons.prems(1,2) this] None show ?thesis
      unfolding range_entries_Cons [OF Cons.prems(1)] by simp
  next
    case (Some v)
    show ?thesis
    proof (cases "expired n v \<and> perpetual v")
      case True
      from Some Cons.prems(2) have "entry_shape v"
        by (simp add: shape_inv_def)
      with True obtain g where "fn v = Some g"
        by (auto simp: entry_shape_def)
      with Some True Cons.prems(1) show ?thesis
        unfolding range_entries_Cons [OF Cons.prems(1)] by simp
    next
      case False
      with Some Cons.prems(3) have ex: "\<exists>k'\<in>set ks. \<exists>v. entries c k' = Some v \<and> expired n v \<and> perpetual v"
        by auto
      show ?thesis
      proof (cases "expired n v")
        case True
        with False have np: "\<not> perpetual v" by simp
        have m': "mutex ?c'" using Cons.prems(1) by simp
        have i': "shape_inv ?c'" using Cons.prems(2) by (simp add: shape_inv_def)
        from ex obtain k2 v2 where k2: "k2 \<in> set ks" "entries c k2 = Some v2" "expired n v2" "perpetual v2"
          by blast
        with Some np have "k2 \<noteq> k" by auto
        with k2 have ex': "\<exists>k'\<in>set ks. \<exists>v. entries ?c' k' = Some v \<and> expired n v \<and> perpetual v"
          by (intro bexI [of _ k2]) auto
        from Cons.IH [OF m' i' ex'] Some True np show ?thesis
          unfolding range_entries_Cons [OF Cons.prems(1)] by simp
      next
        case nexp: False
        from Cons.IH [OF Cons.prems(1,2) ex] Some nexp show ?thesis
          unfolding range_entries_Cons [OF Cons.prems(1)] by simp
      qed
    qed
  qed
qed

lemma range_entries_keeps_perpetual:
  "mutex c \<Longrightarrow> entries c k = Some x \<Longrightarrow> perpetual x \<Longrightarrow>
   entries (fst (state_of (range_entries ks n (c, e)))) k = Some x"
proof (induction ks arbitrary: c)
  case Nil
  then show ?case by simp
next
  case (Cons k' ks)
  let ?c' = "c\<lparr>entries := (entries c)(k' := None)\<rparr>"
  show ?case
  proof (cases "entries c k'")
    case None
    with Cons.IH [OF Cons.prems] show ?thesis
      unfolding range_entries_Cons [OF Cons.prems(1)] by simp
  next
    case (Some v)
    show ?thesis
    proof (cases "expired n v \<and> \<not> perpetual v")
      case True
      with Some Cons.prems have ne: "k' \<noteq> k" by auto
      have "entries (fst (state_of (range_entries ks n (?c', e)))) k = Some x"
        using ne Cons.prems by (intro Cons.IH) simp_all
      with Some True show ?thesis
        unfolding range_entries_Cons [OF Cons.prems(1)] by simp
    next
      case False
      with Some Cons.IH [OF Cons.prems] Cons.prems show ?thesis
        unfolding range_entries_Cons [OF Cons.prems(1)] by (auto split: option.splits)
    qed
  qed
qed

lemma range_entries_skips_absent:
  "mutex c \<Longrightarrow> entries c k = None \<Longrightarrow> range_entries ks n (c, e) = range_entries (removeAll k ks) n (c, e)"
proof (induction ks arbitrary: c)
  case Nil
  then show ?case by simp
next
  case (Cons k' ks)
  let ?c' = "c\<lparr>entries := (entries c)(k' := None)\<rparr>"
  have m': "mutex ?c'" using Cons.prems(1) by simp
  have a': "entries ?c' k = None" using Cons.prems(2) by simp
  show ?case
  proof (cases "k' = k")
    case True
    with Cons.prems Cons.IH [OF Cons.prems] show ?thesis
      unfolding range_entries_Cons [OF Cons.prems(1)] by simp
  next
    case False
    with Cons.IH [OF Cons.prems] Cons.IH [OF m' a'] show ?thesis
      by (simp add: range_entries_Cons [OF Cons.prems(1)] del: range_entries.simps split: option.splits)
  qed
qed


lemma tick_eq:
  "tick ks (c, e) =
     (if mutex c then Blocked (c, e)
      else andThen (range_entries ks (UnixNano (clock e))) (\<lambda>_. Unlock) (c\<lparr>mutex := True\<rparr>, e))"
  by (simp add: tick_def andThen_def Lock_def time_Now_def)

lemma range_entries_absent:
  "mutex c \<Longrightarrow> entries c k = None \<Longrightarrow> entries (fst (state_of (range_entries ks n (c, e)))) k = None"
proof (induction ks arbitrary: c)
  case Nil
  then show ?case by simp
next
  case (Cons k' ks)
  let ?c' = "c\<lparr>entries := (entries c)(k' := None)\<rparr>"
  have "entries (fst (state_of (range_entries ks n (?c', e)))) k = None"
    using Cons.prems by (intro Cons.IH) simp_all
  with Cons.IH [OF Cons.prems] Cons.prems show ?case
    unfolding range_entries_Cons [OF Cons.prems(1)] by (auto split: option.splits)
qed

lemma tick_entries:
  "\<not> mutex c \<Longrightarrow>
   entries (fst (state_of (tick ks (c, e)))) =
   entries (fst (state_of (range_entries ks (UnixNano (clock e)) (c\<lparr>mutex := True\<rparr>, e))))"
proof -
  assume free: "\<not> mutex c"
  let ?r = "range_entries ks (UnixNano (clock e)) (c\<lparr>mutex := True\<rparr>, e)"
  have held: "mutex (fst (state_of ?r))"
    by (rule range_entries_mutex) simp
  show ?thesis
  proof (cases ?r)
    case (Returns u s')
    with held show ?thesis
      using free by (simp add: tick_eq andThen_def Unlock_def)
  next
    case (Blocked s')
    then show ?thesis using free by (simp add: tick_eq andThen_def)
  next
    case (Panics s')
    then show ?thesis using free by (simp add: tick_eq andThen_def)
  qed
qed

lemma tick_held: "mutex c \<Longrightarrow> tick ks (c, e) = Blocked (c, e)"
  by (simp add: tick_eq)

lemma tick_keeps_perpetual:
  "entries c k = Some x \<Longrightarrow> perpetual x \<Longrightarrow> entries (fst (state_of (tick ks (c, e)))) k = Some x"
proof (cases "mutex c")
  case True
  assume "entries c k = Some x"
  with True show ?thesis by (simp add: tick_held)
next
  case False
  assume "entries c k = Some x" "perpetual x"
  then have "entries (fst (state_of (range_entries ks (UnixNano (clock e)) (c\<lparr>mutex := True\<rparr>, e)))) k = Some x"
    by (intro range_entries_keeps_perpetual) simp_all
  with False show ?thesis by (simp add: tick_entries)
qed

lemma tick_absent:
  "entries c k = None \<Longrightarrow> entries (fst (state_of (tick ks (c, e)))) k = None"
proof (cases "mutex c")
  case True
  assume "entries c k = None"
  with True show ?thesis by (simp add: tick_held)
next
  case False
  assume "entries c k = None"
  then have "entries (fst (state_of (range_entries ks (UnixNano (clock e)) (c\<lparr>mutex := True\<rparr>, e)))) k = None"
    by (intro range_entries_absent) simp_all
  with False show ?thesis by (simp add: tick_entries)
qed

lemma tick_shape:
  "shape_inv c \<Longrightarrow> shape_inv (fst (state_of (tick ks (c, e))))"
proof (cases "mutex c")
  case True
  assume "shape_inv c"
  with True show ?thesis by (simp add: tick_held)
next
  case False
  assume "shape_inv c"
  then have "shape_inv (fst (state_of (range_entries ks (UnixNano (clock e)) (c\<lparr>mutex := True\<rparr>, e))))"
    by (intro range_entries_shape) (simp_all add: shape_inv_def)
  then show ?thesis
    unfolding shape_inv_def tick_entries [OF False] .
qed

lemma tick_skips_absent:
  "entries c k = None \<Longrightarrow> tick ks (c, e) = tick (removeAll k ks) (c, e)"
proof -
  assume "entries c k = None"
  then have "range_entries ks (UnixNano (clock e)) (c\<lparr>mutex := True\<rparr>, e) =
      range_entries (removeAll k ks) (UnixNano (clock e)) (c\<lparr>mutex := True\<rparr>, e)"
    by (intro range_entries_skips_absent) simp_all
  then show ?thesis by (simp only: tick_eq andThen_def)
qed

lemma tick_blocks:
  assumes "\<not> mutex c" and "shape_inv c"
    and "k \<in> set ks" and "entries c k = Some v" and "expired (UnixNano (clock e)) v" and "perpetual v"
  shows "\<exists>c' e'. tick ks (c, e) = Blocked (c', e') \<and> mutex c' \<and> entries c' k = Some v"
proof -
  let ?c = "c\<lparr>mutex := True\<rparr>"
  have "\<exists>c' e'. range_entries ks (UnixNano (clock e)) (?c, e) = Blocked (c', e') \<and> mutex c'"
    using assms by (intro range_entries_blocks) (auto simp: shape_inv_def)
  then obtain c' e' where r: "range_entries ks (UnixNano (clock e)) (?c, e) = Blocked (c', e')" and m: "mutex c'"
    by blast
  have "entries (fst (state_of (range_entries ks (UnixNano (clock e)) (?c, e)))) k = Some v"
    using assms by (intro range_entries_keeps_perpetual) simp_all
  with r have "entries c' k = Some v" by simp
  with r m assms(1) show ?thesis by (simp add: tick_eq andThen_def)
qed

lemma tick_evicts:
  assumes "\<not> mutex c" and "dom (entries c) \<subseteq> set ks"
    and "\<forall>k v. entries c k = Some v \<longrightarrow> expired (UnixNano (clock e)) v \<longrightarrow> \<not> perpetual v"
  shows "tick ks (c, e) =
     Returns () (c\<lparr>entries := entries c |` {k. \<forall>v. entries c k = Some v \<longrightarrow> \<not> expired (UnixNano (clock e)) v}\<rparr>, e)"
proof -
  let ?c = "c\<lparr>mutex := True\<rparr>" and ?n = "UnixNano (clock e)"
  have "range_entries ks ?n (?c, e) = Returns () (?c\<lparr>entries := entries ?c |` (- evicted ks ?n ?c)\<rparr>, e)"
    using assms(3) by (intro range_entries_evicts) simp_all
  moreover have "entries ?c |` (- evicted ks ?n ?c) = entries c |` {k. \<forall>v. entries c k = Some v \<longrightarrow> \<not> expired ?n v}"
    using assms(2) by (auto simp: evicted_def restrict_map_def fun_eq_iff)
  ultimately show ?thesis
    using assms(1) by (simp add: tick_eq andThen_def Unlock_def)
qed

lemma startTimer_loop_keeps_perpetual:
  "entries (fst s) k = Some x \<Longrightarrow> perpetual x \<Longrightarrow> entries (fst (state_of (startTimer_loop ticks s))) k = Some x"
proof (induction ticks arbitrary: s)
  case Nil
  then show ?case by simp
next
  case (Cons a ticks)
  obtain dt ks where a: "a = (dt, ks)" by (cases a)
  obtain c e where s: "s = (c, e)" by (cases s)
  let ?e = "e\<lparr>clock := clock e + dt\<rparr>"
  have t: "entries (fst (state_of (tick ks (c, ?e)))) k = Some x"
    using Cons.prems by (intro tick_keeps_perpetual) (simp_all add: s)
  show ?case
  proof (cases "tick ks (c, ?e)")
    case (Returns u s')
    with t have "entries (fst s') k = Some x" by simp
    from Cons.IH [OF this Cons.prems(2)] Returns show ?thesis
      by (simp add: a s andThen_def)
  next
    case (Blocked s')
    with t show ?thesis by (simp add: a s andThen_def)
  next
    case (Panics s')
    with t show ?thesis by (simp add: a s andThen_def)
  qed
qed

lemma startTimer_loop_absent:
  "entries (fst s) k = None \<Longrightarrow> entries (fst (state_of (startTimer_loop ticks s))) k = None"
proof (induction ticks arbitrary: s)
  case Nil
  then show ?case by simp
next
  case (Cons a ticks)
  obtain dt ks where a: "a = (dt, ks)" by (cases a)
  obtain c e where s: "s = (c, e)" by (cases s)
  let ?e = "e\<lparr>clock := clock e + dt\<rparr>"
  have t: "entries (fst (state_of (tick ks (c, ?e)))) k = None"
    using Cons.prems by (intro tick_absent) (simp_all add: s)
  show ?case
  proof (cases "tick ks (c, ?e)")
    case (Returns u s')
    with t have "entries (fst s') k = None" by simp
    from Cons.IH [OF this] Returns show ?thesis
      by (simp add: a s andThen_def)
  next
    case (Blocked s')
    with t show ?thesis by (simp add: a s andThen_def)
  next
    case (Panics s')
    with t show ?thesis by (simp add: a s andThen_def)
  qed
qed

lemma startTimer_loop_shape:
  "shape_inv (fst s) \<Longrightarrow> shape_inv (fst (state_of (startTimer_loop ticks s)))"
proof (induction ticks arbitrary: s)
  case Nil
  then show ?case by simp
next
  case (Cons a ticks)
  obtain dt ks where a: "a = (dt, ks)" by (cases a)
  obtain c e where s: "s = (c, e)" by (cases s)
  let ?e = "e\<lparr>clock := clock e + dt\<rparr>"
  have t: "shape_inv (fst (state_of (tick ks (c, ?e))))"
    using Cons.prems by (intro tick_shape) (simp add: s)
  show ?case
  proof (cases "tick ks (c, ?e)")
    case (Returns u s')
    with t have "shape_inv (fst s')" by simp
    from Cons.IH [OF this] Returns show ?thesis
      by (simp add: a s andThen_def)
  next
    case (Blocked s')
    with t show ?thesis by (simp add: a s andThen_def)
  next
    case (Panics s')
    with t show ?thesis by (simp add: a s andThen_def)
  qed
qed

lemma shape_inv_insert:
  "shape_inv c \<Longrightarrow> entry_shape x \<Longrightarrow> shape_inv (c\<lparr>entries := (entries c)(k \<mapsto> x)\<rparr>)"
  by (simp add: shape_inv_def)

lemma shape_inv_remove:
  "shape_inv c \<Longrightarrow> shape_inv (c\<lparr>entries := (entries c)(k := None)\<rparr>)"
  by (simp add: shape_inv_def)

text \<open>
  No operation of the cache releases a mutex that is held when the operation starts: each
  one is parked in \<open>Lock\<close>, or, as \<open>Delete\<close>, does not touch the mutex. So a
  goroutine that is parked while it holds the mutex itself stays parked, and the mutex
  stays held, whatever the other goroutines call.
\<close>

lemma held_mutex_stays_held:
  assumes "mutex c"
  shows "mutex (fst (state_of (Store k v d (c, e))))"
    and "mutex (fst (state_of (StorePerpetual k f d (c, e))))"
    and "mutex (fst (state_of (Get k (c, e))))"
    and "mutex (fst (state_of (Delete k (c, e))))"
    and "mutex (fst (state_of (tick ks (c, e))))"
  using assms
  by (cases f; simp add: Store_eq StorePerpetual_eq StorePerpetual_nil Get_eq Delete_eq tick_held)+

text \<open>
  What \<open>expire\<close> does to a perpetual entry when the mutex is free at its call: the
  value and the expiry of the entry are replaced. The sweep never calls it so.
\<close>

lemma expire_unlocked:
  "\<not> mutex c \<Longrightarrow> entries c k = Some v \<Longrightarrow> perpetual v \<Longrightarrow> fn v = Some g \<Longrightarrow>
   expire k v (c, e) =
     Returns () (c\<lparr>entries := (entries c)(k \<mapsto> v\<lparr>value := fst (g e), expiry := clock (snd (g e)) + lifetime v\<rparr>)\<rparr>, snd (g e))"
  by (auto simp: expire_def go_defs fun_eq_iff intro!: arg_cong [where f = "\<lambda>m. c\<lparr>entries := m\<rparr>"])

text \<open>
  \<open>UnixNano\<close> is the identity on the times that fit \<open>int64\<close>. An expiry beyond them
  wraps around to a negative number, so that the test of line 125 takes an entry stored
  with the longest \<open>time.Duration\<close> for expired at the next tick.
\<close>

lemma UnixNano_in_range: "- (2 ^ 63) \<le> t \<Longrightarrow> t < 2 ^ 63 \<Longrightarrow> UnixNano t = t"
  by (simp add: UnixNano_def)

lemma far_expiry_wraps:
  "Store (1::nat) (Val (7::nat)) 9223372036854775807 (NewCache, \<lparr>clock = 1793500000 * second, user = 0::nat\<rparr>)
     = Returns () (\<lparr>mutex = False, entries = [1 \<mapsto> plain_entry 7 11016872036854775807]\<rparr>, \<lparr>clock = 1793500000 * second, user = 0\<rparr>)
   \<and> tick [1] (\<lparr>mutex = False, entries = [(1::nat) \<mapsto> plain_entry 7 11016872036854775807]\<rparr>, \<lparr>clock = 1793500001 * second, user = 0::nat\<rparr>)
     = Returns () (\<lparr>mutex = False, entries = Map.empty\<rparr>, \<lparr>clock = 1793500001 * second, user = 0\<rparr>)"
  by (simp add: Store_eq NewCache_def tick_eq andThen_def expire_def Delete_eq Unlock_def UnixNano_def
      plain_entry_def second_def)

section \<open>The claims\<close>

subsection \<open>Lock discipline of the sweep and of \<open>Delete\<close>\<close>

text \<open>
  Claim C1: no operation of the cache blocks for ever; when the sweep regenerates an expired
  perpetual entry it releases the lock after a bounded number of map operations, a \<open>Get\<close>
  in another goroutine is not kept waiting, and the regeneration step never asks for the
  lock that the sweeping goroutine holds already.

  The code does otherwise. The sweep takes the lock at line 122 and calls \<open>expire\<close> at
  line 126; for a perpetual entry \<open>expire\<close> runs the generator and then asks for the same
  lock at line 146. On a cache that holds one perpetual entry, six seconds after it was
  stored with a lifetime of five, the tick runs the generator (the counter goes from 1 to
  2) and is then parked with the mutex held and the entry unchanged; from that state
  \<open>Get\<close> and \<open>Store\<close> are parked as well. The lemma \<open>tick_blocks\<close> above shows the
  same for every cache that holds an expired perpetual entry.
\<close>

theorem C1_sweep_relocks_held_mutex:
  "tick [1] (\<lparr>mutex = False, entries = [1 \<mapsto> perpetual_entry]\<rparr>, \<lparr>clock = 6 * second, user = 1\<rparr>)
     = Blocked (\<lparr>mutex = True, entries = [(1::nat) \<mapsto> perpetual_entry]\<rparr>, \<lparr>clock = 6 * second, user = 2\<rparr>)
   \<and> Get 1 (\<lparr>mutex = True, entries = [(1::nat) \<mapsto> perpetual_entry]\<rparr>, \<lparr>clock = 6 * second, user = 2\<rparr>)
     = Blocked (\<lparr>mutex = True, entries = [1 \<mapsto> perpetual_entry]\<rparr>, \<lparr>clock = 6 * second, user = 2\<rparr>)
   \<and> Store 2 (Val 7) second (\<lparr>mutex = True, entries = [(1::nat) \<mapsto> perpetual_entry]\<rparr>, \<lparr>clock = 6 * second, user = 2\<rparr>)
     = Blocked (\<lparr>mutex = True, entries = [1 \<mapsto> perpetual_entry]\<rparr>, \<lparr>clock = 6 * second, user = 2\<rparr>)"
  by (simp add: tick_eq Get_eq Store_eq andThen_def expire_def UnixNano_def Lock_def
      perpetual_entry_def counter_def second_def)

text \<open>
  Claim C2: \<open>Delete\<close> removes the entry from the map while it holds the lock of the cache,
  as every other change of the map does; no deletion goes around the lock.

  The code does otherwise: \<open>Delete\<close> is the bare \<open>delete(c.entries, key)\<close> of line 98.
  Run while another goroutine holds the mutex it returns at once with the entry removed,
  where \<open>Store\<close> on the same state waits; run on a free mutex it is the map operation
  alone and never takes the lock.
\<close>

theorem C2_Delete_takes_no_lock:
  "Delete 1 (\<lparr>mutex = True, entries = [(1::nat) \<mapsto> plain_entry 7 second]\<rparr>, \<lparr>clock = 0, user = 0::nat\<rparr>)
     = Returns () (\<lparr>mutex = True, entries = Map.empty\<rparr>, \<lparr>clock = 0, user = 0\<rparr>)
   \<and> Store 1 (Val 8) second (\<lparr>mutex = True, entries = [(1::nat) \<mapsto> plain_entry 7 second]\<rparr>, \<lparr>clock = 0, user = 0::nat\<rparr>)
     = Blocked (\<lparr>mutex = True, entries = [1 \<mapsto> plain_entry 7 second]\<rparr>, \<lparr>clock = 0, user = 0\<rparr>)
   \<and> Delete 1 (\<lparr>mutex = False, entries = [(1::nat) \<mapsto> plain_entry 7 second]\<rparr>, \<lparr>clock = 0, user = 0::nat\<rparr>)
     = map_delete 1 (\<lparr>mutex = False, entries = [(1::nat) \<mapsto> plain_entry 7 second]\<rparr>, \<lparr>clock = 0, user = 0::nat\<rparr>)"
  by (simp add: Delete_def map_delete_def Store_eq)

subsection \<open>The sweep\<close>

text \<open>
  Claim C3: one sweep handles exactly the entries whose expiry is not after the time of the
  tick: such an entry is removed when it is not perpetual; when it is perpetual it stays,
  its value is replaced by a fresh result of the generator and its expiry becomes now plus
  lifetime; all other entries are left as they are.

  The code does this for the entries that are not perpetual (lemma \<open>tick_evicts\<close> above),
  but not for a perpetual one. On a cache with an expired plain entry under key 1, an
  expired perpetual entry under key 2 and a plain entry under key 3 that has not expired,
  swept in that order, entry 1 is removed, the generator of entry 2 is called (the counter
  goes from 1 to 2), and the sweep is parked in \<open>Lock\<close> at line 146: entry 2 keeps its
  old value and its old expiry, and the mutex stays held.
\<close>

theorem C3_sweep_stops_at_perpetual:
  "tick [1, 2, 3]
     (\<lparr>mutex = False, entries = [1 \<mapsto> plain_entry 7 second, 2 \<mapsto> perpetual_entry, 3 \<mapsto> plain_entry 9 (60 * second)]\<rparr>,
      \<lparr>clock = 6 * second, user = 1\<rparr>)
   = Blocked
     (\<lparr>mutex = True, entries = [(2::nat) \<mapsto> perpetual_entry, 3 \<mapsto> plain_entry 9 (60 * second)]\<rparr>,
      \<lparr>clock = 6 * second, user = 2\<rparr>)"
  by (simp add: tick_eq andThen_def expire_def UnixNano_def Lock_def Delete_eq
      perpetual_entry_def plain_entry_def counter_def second_def fun_upd_twist)

text \<open>
  Claim C4: the sweep never removes a perpetual entry; once its lifetime has passed,
  \<open>Get\<close> returns a fresh result of the generator, and the entry stays in the map over
  any number of further cycles, until \<open>Delete\<close> removes it.

  The entry does stay (lemma \<open>startTimer_loop_keeps_perpetual\<close> above: no number of ticks
  removes or changes a perpetual entry), but its value is never refreshed and \<open>Get\<close>
  stops returning. \<open>StorePerpetual\<close> with the counter and a lifetime of five seconds
  stores the value 0. Of six ticks, one second apart, the first four find nothing expired;
  the fifth calls the generator, whose result 1 is dropped, and is parked in \<open>Lock\<close>; the
  sixth never runs. \<open>Get\<close> on the state reached is parked too, and the entry still holds
  the value 0.
\<close>

theorem C4_perpetual_entry_never_refreshed:
  "StorePerpetual 1 (Some counter) (5 * second) (NewCache, \<lparr>clock = 0, user = 0\<rparr>)
     = Returns () (\<lparr>mutex = False, entries = [(1::nat) \<mapsto> perpetual_entry]\<rparr>, \<lparr>clock = 0, user = 1\<rparr>)
   \<and> startTimer_loop [(second, [1]), (second, [1]), (second, [1]), (second, [1]), (second, [1]), (second, [1])]
       (\<lparr>mutex = False, entries = [(1::nat) \<mapsto> perpetual_entry]\<rparr>, \<lparr>clock = 0, user = 1\<rparr>)
     = Blocked (\<lparr>mutex = True, entries = [1 \<mapsto> perpetual_entry]\<rparr>, \<lparr>clock = 5 * second, user = 2\<rparr>)
   \<and> Get 1 (\<lparr>mutex = True, entries = [(1::nat) \<mapsto> perpetual_entry]\<rparr>, \<lparr>clock = 5 * second, user = 2\<rparr>)
     = Blocked (\<lparr>mutex = True, entries = [1 \<mapsto> perpetual_entry]\<rparr>, \<lparr>clock = 5 * second, user = 2\<rparr>)
   \<and> value perpetual_entry = Val 0"
  by (simp add: StorePerpetual_eq NewCache_def tick_eq Get_eq andThen_def expire_def UnixNano_def
      Lock_def Unlock_def perpetual_entry_def counter_def second_def)

subsection \<open>Storing and reading\<close>

text \<open>
  Claim C5: \<open>StorePerpetual key gen lifetime\<close> calls the generator exactly once, in the
  calling goroutine and before it takes the lock; it then inserts a perpetual entry whose
  value is that first result and whose expiry is now plus lifetime; \<open>Get key\<close> right
  after returns that first result.

  The environment after the call is the one that a single run of the generator leaves, and
  the stored value is the result of that run. That the generator runs before the lock is
  taken shows on a held mutex: the call is parked with the generator's effect already
  there. The expiry is counted from the clock as it was before the generator ran.
\<close>

theorem C5_StorePerpetual:
  "(mutex c \<longrightarrow> StorePerpetual k (Some g) d (c, e) = Blocked (c, snd (g e)))
   \<and> (\<not> mutex c \<longrightarrow>
        StorePerpetual k (Some g) d (c, e)
          = Returns () (c\<lparr>entries := (entries c)(k \<mapsto>
              \<lparr>value = fst (g e), expiry = clock e + d, perpetual = True, fn = Some g, lifetime = d\<rparr>)\<rparr>, snd (g e))
      \<and> Get k (c\<lparr>entries := (entries c)(k \<mapsto>
              \<lparr>value = fst (g e), expiry = clock e + d, perpetual = True, fn = Some g, lifetime = d\<rparr>)\<rparr>, snd (g e))
          = Returns (fst (g e)) (c\<lparr>entries := (entries c)(k \<mapsto>
              \<lparr>value = fst (g e), expiry = clock e + d, perpetual = True, fn = Some g, lifetime = d\<rparr>)\<rparr>, snd (g e)))"
  by (simp add: StorePerpetual_eq Get_eq)

theorem C5_StorePerpetual_witness:
  "mutex (\<lparr>mutex = True, entries = Map.empty\<rparr> :: (nat, nat, nat) Cache)
   \<and> StorePerpetual (1::nat) (Some counter) (5 * second) (\<lparr>mutex = True, entries = Map.empty\<rparr>, \<lparr>clock = 0, user = 0\<rparr>)
       = Blocked (\<lparr>mutex = True, entries = Map.empty\<rparr>, \<lparr>clock = 0, user = 1\<rparr>)
   \<and> \<not> mutex (NewCache :: (nat, nat, nat) Cache)
   \<and> StorePerpetual (1::nat) (Some counter) (5 * second) (NewCache, \<lparr>clock = 0, user = 0\<rparr>)
       = Returns () (\<lparr>mutex = False, entries = [1 \<mapsto> perpetual_entry]\<rparr>, \<lparr>clock = 0, user = 1\<rparr>)
   \<and> Get (1::nat) (\<lparr>mutex = False, entries = [1 \<mapsto> perpetual_entry]\<rparr>, \<lparr>clock = 0, user = 1\<rparr>)
       = Returns (Val 0) (\<lparr>mutex = False, entries = [1 \<mapsto> perpetual_entry]\<rparr>, \<lparr>clock = 0, user = 1\<rparr>)"
  using C5_StorePerpetual [of "\<lparr>mutex = True, entries = Map.empty\<rparr>" "1::nat" counter "5 * second" "\<lparr>clock = 0, user = 0\<rparr>"]
    C5_StorePerpetual [of "NewCache" "1::nat" counter "5 * second" "\<lparr>clock = 0, user = 0\<rparr>"]
  by (simp add: NewCache_def counter_def perpetual_entry_def second_def)

text \<open>
  Claim C6: for every key, value and duration \<open>d > 0\<close>, \<open>Store k v d\<close> inserts an entry
  that is not perpetual with expiry now plus \<open>d\<close>, and \<open>Get k\<close> right after returns
  \<open>v\<close>; an entry already under \<open>k\<close>, perpetual or not, is overwritten and nothing of
  it is kept.

  This holds for every duration, positive or not, when the lock is free at the call. The
  new entry is given in full: nothing in it comes from the entry that was there.
\<close>

theorem C6_Store_then_Get:
  assumes "\<not> mutex c"
  shows "Store k v d (c, e)
           = Returns () (c\<lparr>entries := (entries c)(k \<mapsto>
               \<lparr>value = v, expiry = clock e + d, perpetual = False, fn = None, lifetime = 0\<rparr>)\<rparr>, e)
         \<and> Get k (c\<lparr>entries := (entries c)(k \<mapsto>
               \<lparr>value = v, expiry = clock e + d, perpetual = False, fn = None, lifetime = 0\<rparr>)\<rparr>, e)
           = Returns v (c\<lparr>entries := (entries c)(k \<mapsto>
               \<lparr>value = v, expiry = clock e + d, perpetual = False, fn = None, lifetime = 0\<rparr>)\<rparr>, e)"
  using assms by (simp add: Store_eq Get_eq)

theorem C6_Store_then_Get_witness:
  "\<not> mutex (\<lparr>mutex = False, entries = [(1::nat) \<mapsto> perpetual_entry]\<rparr>)
   \<and> Store 1 (Val 7) (30 * second) (\<lparr>mutex = False, entries = [(1::nat) \<mapsto> perpetual_entry]\<rparr>, \<lparr>clock = second, user = 1\<rparr>)
       = Returns () (\<lparr>mutex = False, entries = [1 \<mapsto> plain_entry 7 (31 * second)]\<rparr>, \<lparr>clock = second, user = 1\<rparr>)
   \<and> Get 1 (\<lparr>mutex = False, entries = [(1::nat) \<mapsto> plain_entry 7 (31 * second)]\<rparr>, \<lparr>clock = second, user = 1::nat\<rparr>)
       = Returns (Val 7) (\<lparr>mutex = False, entries = [1 \<mapsto> plain_entry 7 (31 * second)]\<rparr>, \<lparr>clock = second, user = 1\<rparr>)"
  using C6_Store_then_Get [of "\<lparr>mutex = False, entries = [(1::nat) \<mapsto> perpetual_entry]\<rparr>" 1 "Val 7" "30 * second" "\<lparr>clock = second, user = 1\<rparr>"]
  by (simp add: plain_entry_def second_def)

text \<open>
  Claim C7: \<open>Delete k\<close> removes the entry under \<open>k\<close> whatever its kind, and does
  nothing when there is none; \<open>Get k\<close> then finds no entry, and no later sweep
  regenerates a value for \<open>k\<close>.

  A sweep after the deletion runs as if \<open>k\<close> were not among the keys it walks, and
  after any number of ticks \<open>k\<close> is still absent.
\<close>

theorem C7_Delete:
  "Delete k (c, e) = Returns () (c\<lparr>entries := (entries c)(k := None)\<rparr>, e)
   \<and> (entries c k = None \<longrightarrow> Delete k (c, e) = Returns () (c, e))
   \<and> (\<not> mutex c \<longrightarrow> Get k (c\<lparr>entries := (entries c)(k := None)\<rparr>, e)
         = Returns Nil (c\<lparr>entries := (entries c)(k := None)\<rparr>, e))
   \<and> tick ks (c\<lparr>entries := (entries c)(k := None)\<rparr>, e)
       = tick (removeAll k ks) (c\<lparr>entries := (entries c)(k := None)\<rparr>, e)
   \<and> entries (fst (state_of (startTimer_loop ticks (c\<lparr>entries := (entries c)(k := None)\<rparr>, e)))) k = None"
proof -
  have d: "Delete k (c, e) = Returns () (c\<lparr>entries := (entries c)(k := None)\<rparr>, e)"
    by (rule Delete_eq)
  have "entries c k = None \<Longrightarrow> c\<lparr>entries := (entries c)(k := None)\<rparr> = c"
    by (simp add: fun_upd_idem)
  moreover have "tick ks (c\<lparr>entries := (entries c)(k := None)\<rparr>, e)
      = tick (removeAll k ks) (c\<lparr>entries := (entries c)(k := None)\<rparr>, e)"
    by (rule tick_skips_absent) simp
  moreover have "entries (fst (state_of (startTimer_loop ticks (c\<lparr>entries := (entries c)(k := None)\<rparr>, e)))) k = None"
    by (rule startTimer_loop_absent) simp
  ultimately show ?thesis
    by (simp add: d Get_eq)
qed

theorem C7_Delete_witness:
  "Delete 1 (\<lparr>mutex = False, entries = [(1::nat) \<mapsto> perpetual_entry]\<rparr>, \<lparr>clock = 0, user = 1\<rparr>)
     = Returns () (\<lparr>mutex = False, entries = Map.empty\<rparr>, \<lparr>clock = 0, user = 1\<rparr>)
   \<and> entries \<lparr>mutex = False, entries = [(1::nat) \<mapsto> perpetual_entry]\<rparr> 2 = None
   \<and> Delete 2 (\<lparr>mutex = False, entries = [(1::nat) \<mapsto> perpetual_entry]\<rparr>, \<lparr>clock = 0, user = 1\<rparr>)
     = Returns () (\<lparr>mutex = False, entries = [(1::nat) \<mapsto> perpetual_entry]\<rparr>, \<lparr>clock = 0, user = 1\<rparr>)
   \<and> \<not> mutex \<lparr>mutex = False, entries = [(1::nat) \<mapsto> perpetual_entry]\<rparr>
   \<and> Get 1 (\<lparr>mutex = False, entries = (Map.empty :: nat \<rightharpoonup> (nat, nat) CacheEntry)\<rparr>, \<lparr>clock = 0, user = 1::nat\<rparr>)
     = Returns Nil (\<lparr>mutex = False, entries = Map.empty\<rparr>, \<lparr>clock = 0, user = 1\<rparr>)
   \<and> entries (fst (state_of (startTimer_loop [(6 * second, [1])]
        (\<lparr>mutex = False, entries = (Map.empty :: nat \<rightharpoonup> (nat, nat) CacheEntry)\<rparr>, \<lparr>clock = 0, user = 1::nat\<rparr>)))) 1 = None"
  using C7_Delete [of 1 "\<lparr>mutex = False, entries = [(1::nat) \<mapsto> perpetual_entry]\<rparr>" "\<lparr>clock = 0, user = 1\<rparr>" "[1]" "[(6 * second, [1])]"]
    C7_Delete [of 2 "\<lparr>mutex = False, entries = [(1::nat) \<mapsto> perpetual_entry]\<rparr>" "\<lparr>clock = 0, user = 1\<rparr>" "[1]" "[(6 * second, [1])]"]
  by simp

text \<open>
  Claim C8: \<open>Get\<close> never produces an error: in every state it returns the value stored
  under the key when there is one and the empty result otherwise; for a key that was never
  stored, as in a new cache, it returns the empty result.

  \<open>Get\<close> never panics. It returns as soon as the lock is free, and waits while it is
  held.
\<close>

theorem C8_Get_never_fails:
  "Get k (c, e) \<noteq> Panics s'
   \<and> (mutex c \<longrightarrow> Get k (c, e) = Blocked (c, e))
   \<and> (\<not> mutex c \<longrightarrow> (\<forall>x. entries c k = Some x \<longrightarrow> Get k (c, e) = Returns (value x) (c, e)))
   \<and> (\<not> mutex c \<longrightarrow> entries c k = None \<longrightarrow> Get k (c, e) = Returns Nil (c, e))
   \<and> Get k (NewCache, e) = Returns Nil (NewCache, e)"
  by (simp add: Get_eq NewCache_def)

theorem C8_Get_never_fails_witness:
  "\<not> mutex \<lparr>mutex = False, entries = [(1::nat) \<mapsto> perpetual_entry]\<rparr>
   \<and> entries \<lparr>mutex = False, entries = [(1::nat) \<mapsto> perpetual_entry]\<rparr> 1 = Some perpetual_entry
   \<and> Get 1 (\<lparr>mutex = False, entries = [(1::nat) \<mapsto> perpetual_entry]\<rparr>, \<lparr>clock = 0, user = 1\<rparr>)
       = Returns (Val 0) (\<lparr>mutex = False, entries = [(1::nat) \<mapsto> perpetual_entry]\<rparr>, \<lparr>clock = 0, user = 1\<rparr>)
   \<and> entries \<lparr>mutex = False, entries = [(1::nat) \<mapsto> perpetual_entry]\<rparr> 2 = None
   \<and> Get 2 (\<lparr>mutex = False, entries = [(1::nat) \<mapsto> perpetual_entry]\<rparr>, \<lparr>clock = 0, user = 1\<rparr>)
       = Returns Nil (\<lparr>mutex = False, entries = [(1::nat) \<mapsto> perpetual_entry]\<rparr>, \<lparr>clock = 0, user = 1\<rparr>)
   \<and> mutex \<lparr>mutex = True, entries = [(1::nat) \<mapsto> perpetual_entry]\<rparr>
   \<and> Get 1 (\<lparr>mutex = True, entries = [(1::nat) \<mapsto> perpetual_entry]\<rparr>, \<lparr>clock = 0, user = 1\<rparr>)
       = Blocked (\<lparr>mutex = True, entries = [(1::nat) \<mapsto> perpetual_entry]\<rparr>, \<lparr>clock = 0, user = 1\<rparr>)"
proof -
  let ?free = "\<lparr>mutex = False, entries = [(1::nat) \<mapsto> perpetual_entry]\<rparr>"
  let ?held = "\<lparr>mutex = True, entries = [(1::nat) \<mapsto> perpetual_entry]\<rparr>"
  let ?e = "\<lparr>clock = 0, user = 1::nat\<rparr>"
  have h: "\<not> mutex ?free" "entries ?free 1 = Some perpetual_entry" "entries ?free 2 = None" "mutex ?held"
    by simp_all
  from C8_Get_never_fails [of 1 ?free ?e "(?free, ?e)"] h
  have present: "Get 1 (?free, ?e) = Returns (value perpetual_entry) (?free, ?e)"
    by blast
  from C8_Get_never_fails [of 2 ?free ?e "(?free, ?e)"] h
  have absent: "Get 2 (?free, ?e) = Returns Nil (?free, ?e)"
    by blast
  from C8_Get_never_fails [of 1 ?held ?e "(?held, ?e)"] h
  have waits: "Get 1 (?held, ?e) = Blocked (?held, ?e)"
    by blast
  have "value perpetual_entry = Val 0"
    by (simp add: perpetual_entry_def)
  with h present absent waits show ?thesis
    by (simp only: simp_thms)
qed

text \<open>
  Claim C9: every operation (\<open>Store\<close>, \<open>StorePerpetual\<close>, \<open>Get\<close>, \<open>Delete\<close> and
  the sweep) keeps the shape of the entries: a perpetual entry has a generator and a
  lifetime, an entry that is not perpetual has neither.

  The new cache has the shape, and each operation keeps it however it ends: returning,
  parked or panicking. \<open>StorePerpetual\<close> with a \<open>nil\<close> generator panics before it
  reaches the map.
\<close>

theorem C9_entry_shape_invariant:
  "shape_inv (NewCache :: ('k, 'v, 'w) Cache)
   \<and> (shape_inv c \<longrightarrow>
        shape_inv (fst (state_of (Store k v d (c, e))))
      \<and> shape_inv (fst (state_of (StorePerpetual k f d (c, e))))
      \<and> shape_inv (fst (state_of (Get k (c, e))))
      \<and> shape_inv (fst (state_of (Delete k (c, e))))
      \<and> shape_inv (fst (state_of (tick ks (c, e))))
      \<and> shape_inv (fst (state_of (startTimer_loop ticks (c :: ('k, 'v, 'w) Cache, e)))))"
proof -
  have new: "shape_inv (NewCache :: ('k, 'v, 'w) Cache)"
    by (simp add: shape_inv_def NewCache_def)
  have store: "shape_inv (fst (state_of (Store k v d (c, e))))" if "shape_inv c"
    using that by (simp add: Store_eq shape_inv_insert entry_shape_def)
  have perp: "shape_inv (fst (state_of (StorePerpetual k f d (c, e))))" if "shape_inv c"
  proof (cases f)
    case None
    with that show ?thesis by (simp add: StorePerpetual_nil)
  next
    case (Some g)
    with that show ?thesis by (simp add: StorePerpetual_eq shape_inv_insert entry_shape_def)
  qed
  have get: "shape_inv (fst (state_of (Get k (c, e))))" if "shape_inv c"
    using that by (simp add: Get_eq)
  have del: "shape_inv (fst (state_of (Delete k (c, e))))" if "shape_inv c"
    using that by (simp add: Delete_eq shape_inv_remove)
  have sweep: "shape_inv (fst (state_of (tick ks (c, e))))" if "shape_inv c"
    using that by (rule tick_shape)
  have loop: "shape_inv (fst (state_of (startTimer_loop ticks (c, e))))" if "shape_inv c"
    using that by (intro startTimer_loop_shape) simp
  from new store perp get del sweep loop show ?thesis by blast
qed

theorem C9_entry_shape_invariant_witness:
  "shape_inv \<lparr>mutex = False, entries = [(1::nat) \<mapsto> perpetual_entry, 2 \<mapsto> plain_entry 7 second]\<rparr>
   \<and> shape_inv (fst (state_of (Store 3 (Val 8) second
        (\<lparr>mutex = False, entries = [(1::nat) \<mapsto> perpetual_entry, 2 \<mapsto> plain_entry 7 second]\<rparr>, \<lparr>clock = 6 * second, user = 1\<rparr>))))
   \<and> shape_inv (fst (state_of (StorePerpetual 2 (Some counter) 0
        (\<lparr>mutex = False, entries = [(1::nat) \<mapsto> perpetual_entry, 2 \<mapsto> plain_entry 7 second]\<rparr>, \<lparr>clock = 6 * second, user = 1\<rparr>))))
   \<and> shape_inv (fst (state_of (tick [1, 2]
        (\<lparr>mutex = False, entries = [(1::nat) \<mapsto> perpetual_entry, 2 \<mapsto> plain_entry 7 second]\<rparr>, \<lparr>clock = 6 * second, user = 1\<rparr>))))"
proof -
  let ?c = "\<lparr>mutex = False, entries = [(1::nat) \<mapsto> perpetual_entry, 2 \<mapsto> plain_entry 7 second]\<rparr>"
  let ?e = "\<lparr>clock = 6 * second, user = 1::nat\<rparr>"
  have h: "shape_inv ?c"
    by (simp add: shape_inv_def entry_shape_def perpetual_entry_def plain_entry_def)
  from C9_entry_shape_invariant [of ?c 3 "Val 8" second ?e "Some counter" "[1, 2]" "[]"]
    C9_entry_shape_invariant [of ?c 2 "Val 8" 0 ?e "Some counter" "[1, 2]" "[]"] h
  show ?thesis by blast
qed

text \<open>
  Claim C10: a stored \<open>nil\<close> cannot be told from a miss: after \<open>Store k nil d\<close>,
  \<open>Get k\<close> returns \<open>nil\<close>, which is what \<open>Get\<close> returns for a key without an
  entry.
\<close>

theorem C10_stored_nil_reads_as_miss:
  assumes "\<not> mutex c" and "entries c k' = None" and "k' \<noteq> k"
  shows "\<exists>s'. Store k Nil d (c, e) = Returns () s'
           \<and> entries (fst s') k \<noteq> None \<and> entries (fst s') k' = None
           \<and> Get k s' = Returns Nil s' \<and> Get k' s' = Returns Nil s'"
  using assms by (simp add: Store_eq Get_eq)

theorem C10_stored_nil_reads_as_miss_witness:
  "\<not> mutex (NewCache :: (nat, nat, nat) Cache) \<and> entries (NewCache :: (nat, nat, nat) Cache) 2 = None \<and> (2::nat) \<noteq> 1
   \<and> (\<exists>s'. Store (1::nat) Nil (30 * second) (NewCache :: (nat, nat, nat) Cache, \<lparr>clock = 0, user = 0\<rparr>) = Returns () s'
           \<and> entries (fst s') 1 \<noteq> None \<and> entries (fst s') 2 = None
           \<and> Get 1 s' = Returns Nil s' \<and> Get 2 s' = Returns Nil s')"
proof -
  have h: "\<not> mutex (NewCache :: (nat, nat, nat) Cache)" "entries (NewCache :: (nat, nat, nat) Cache) 2 = None" "(2::nat) \<noteq> 1"
    by (simp_all add: NewCache_def)
  from C10_stored_nil_reads_as_miss [OF h, of "30 * second" "\<lparr>clock = 0, user = 0\<rparr>"] h
  show ?thesis by blast
qed

end
